theory Spec2Isabelle
  imports Main "HOL-Library.Word"
begin

section \<open>The parser-combinator engine\<close>

subsection \<open>Strings, values, results\<close>

text \<open>
  A JavaScript string is a sequence of UTF-16 code units; \<open>length\<close>, \<open>charAt\<close>,
  \<open>substr\<close> and \<open>slice\<close> all count code units. A position is a zero-based offset
  into the input.
\<close>

type_synonym jsstring = "16 word list"

text \<open>
  The values parsers produce. The engine is dynamically typed: \<open>seq\<close> collects the
  values of parsers of different types into one array.
\<close>

datatype jsval = JNull | JUndefined | JStr jsstring | JArr "jsval list"

text \<open>\<open>Result<T> = Success<T> | Failure\<close>: a failure carries nothing.\<close>

datatype result = Success jsval nat | Failure

definition success :: "nat \<Rightarrow> jsval \<Rightarrow> result" where
  "success index v = Success v index"

definition failure :: result where
  "failure = Failure"

fun is_success :: "result \<Rightarrow> bool" where
  "is_success (Success v i) = True"
| "is_success Failure = False"

text \<open>\<open>StateBase\<close>: the optional \<open>trace\<close> flag; a grammar may extend the state.\<close>

record state_base =
  trace :: "bool option"

text \<open>
  A line the trace wrapper writes to the console: \<open>enter name\<close> with the position,
  \<open>match name\<close> with the position range, \<open>fail name\<close> with the position.
\<close>

datatype event = Enter nat jsstring | Match nat nat jsstring | Fail nat jsstring

text \<open>
  A handler returns a result together with the console lines written while it ran.
  A handler that does not return (a loop that never ends) is \<open>None\<close>.
\<close>

type_synonym 's handler = "jsstring \<Rightarrow> nat \<Rightarrow> 's \<Rightarrow> (result \<times> event list) option"

subsection \<open>The Parser class\<close>

text \<open>
  \<open>body\<close> is the handler given to the constructor, \<open>name\<close> the mutable name field.
  \<open>handler\<close> is the closure the constructor installs as \<open>this.handler\<close>: it reads
  \<open>this.name\<close> when it is called, and with tracing on and a name set it writes the
  \<open>enter\<close> line, runs the body, and writes the \<open>match\<close> or \<open>fail\<close> line. In every
  handler \<open>inp\<close> is the parameter \<open>input\<close> and \<open>st\<close> the parameter \<open>state\<close>; no handler
  of the engine writes to the state.
\<close>

record 's parser =
  name :: "jsstring option"
  body :: "'s handler"

definition Parser :: "'s handler \<Rightarrow> jsstring option \<Rightarrow> 's parser" where
  "Parser h n = \<lparr>name = n, body = h\<rparr>"

definition handler :: "'a state_base_scheme parser \<Rightarrow> 'a state_base_scheme handler" where
  "handler this inp index st =
     (if trace st = Some True \<and> name this \<noteq> None then
        (case body this inp index st of
           None \<Rightarrow> None
         | Some (Success v i, log) \<Rightarrow>
             Some (Success v i, Enter index (the (name this)) # log @ [Match index i (the (name this))])
         | Some (Failure, log) \<Rightarrow>
             Some (Failure, Enter index (the (name this)) # log @ [Fail index (the (name this))]))
      else body this inp index st)"

definition map_p :: "'a state_base_scheme parser \<Rightarrow> (jsval \<Rightarrow> jsval) \<Rightarrow> 'a state_base_scheme parser" where
  "map_p this fn = Parser (\<lambda>inp index st.
     case handler this inp index st of
       None \<Rightarrow> None
     | Some (Failure, log) \<Rightarrow> Some (Failure, log)
     | Some (Success v i, log) \<Rightarrow> Some (success i (fn v), log)) None"

text \<open>\<open>input.slice(a, b)\<close> for offsets \<open>a\<close>, \<open>b\<close>: empty when \<open>b \<le> a\<close>.\<close>

definition slice :: "jsstring \<Rightarrow> nat \<Rightarrow> nat \<Rightarrow> jsstring" where
  "slice s a b = take (b - a) (drop a s)"

definition text_p :: "'a state_base_scheme parser \<Rightarrow> 'a state_base_scheme parser" where
  "text_p this = Parser (\<lambda>inp index st.
     case handler this inp index st of
       None \<Rightarrow> None
     | Some (Failure, log) \<Rightarrow> Some (Failure, log)
     | Some (Success v i, log) \<Rightarrow> Some (success i (JStr (slice inp index i)), log)) None"

text \<open>
  The \<open>while\<close> loop of \<open>many\<close>: it is left when \<open>latestIndex\<close> reaches the input's
  length or when the sub-parser fails. Nothing else bounds it, so it is a partial
  function: \<open>None\<close> when the loop never ends.
\<close>

partial_function (option) many_loop ::
  "'a state_base_scheme parser \<Rightarrow> jsstring \<Rightarrow> 'a state_base_scheme \<Rightarrow> nat \<Rightarrow> jsval list \<Rightarrow> event list
    \<Rightarrow> (nat \<times> jsval list \<times> event list) option" where
  "many_loop this inp st latestIndex accum log =
     (if latestIndex < length inp then
        (case handler this inp latestIndex st of
           None \<Rightarrow> None
         | Some (Failure, l) \<Rightarrow> Some (latestIndex, accum, log @ l)
         | Some (Success v i, l) \<Rightarrow> many_loop this inp st i (accum @ [v]) (log @ l))
      else Some (latestIndex, accum, log))"

declare many_loop.simps [code]

definition many :: "'a state_base_scheme parser \<Rightarrow> int \<Rightarrow> 'a state_base_scheme parser" where
  "many this mn = Parser (\<lambda>inp index st.
     case many_loop this inp st index [] [] of
       None \<Rightarrow> None
     | Some (latestIndex, accum, log) \<Rightarrow>
         if int (length accum) < mn then Some (failure, log)
         else Some (success latestIndex (JArr accum), log)) None"

text \<open>The error \<open>sep\<close> throws when it is built with \<open>min < 1\<close>.\<close>

datatype error = Error string

text \<open>
  \<open>v[key]\<close> for an array index \<open>key\<close>: the element, or \<open>undefined\<close> out of range.
  On \<open>null\<close> and \<open>undefined\<close> JavaScript raises a TypeError; \<open>select\<close> is applied by
  the engine to the array a \<open>seq\<close> returns only.
\<close>

fun js_get :: "jsval \<Rightarrow> nat \<Rightarrow> jsval" where
  "js_get (JArr xs) key = (if key < length xs then xs ! key else JUndefined)"
| "js_get (JStr s) key = (if key < length s then JStr [s ! key] else JUndefined)"
| "js_get JNull key = JUndefined"
| "js_get JUndefined key = JUndefined"

definition select :: "'a state_base_scheme parser \<Rightarrow> nat \<Rightarrow> 'a state_base_scheme parser" where
  "select this key = map_p this (\<lambda>v. js_get v key)"

text \<open>The \<open>for\<close> loop of \<open>seq\<close>, over the parsers still to run.\<close>

fun seq_loop ::
  "'a state_base_scheme parser list \<Rightarrow> jsstring \<Rightarrow> 'a state_base_scheme \<Rightarrow> nat \<Rightarrow> jsval list \<Rightarrow> event list
    \<Rightarrow> (result \<times> event list) option" where
  "seq_loop [] inp st latestIndex accum log = Some (success latestIndex (JArr accum), log)"
| "seq_loop (p # parsers) inp st latestIndex accum log =
     (case handler p inp latestIndex st of
        None \<Rightarrow> None
      | Some (Failure, l) \<Rightarrow> Some (Failure, log @ l)
      | Some (Success v i, l) \<Rightarrow> seq_loop parsers inp st i (accum @ [v]) (log @ l))"

definition seq :: "'a state_base_scheme parser list \<Rightarrow> 'a state_base_scheme parser" where
  "seq parsers = Parser (\<lambda>inp index st. seq_loop parsers inp st index [] []) None"

text \<open>The \<open>for\<close> loop of \<open>alt\<close>: the first success is returned as it is.\<close>

fun alt_loop ::
  "'a state_base_scheme parser list \<Rightarrow> jsstring \<Rightarrow> 'a state_base_scheme \<Rightarrow> nat \<Rightarrow> event list
    \<Rightarrow> (result \<times> event list) option" where
  "alt_loop [] inp st index log = Some (failure, log)"
| "alt_loop (p # parsers) inp st index log =
     (case handler p inp index st of
        None \<Rightarrow> None
      | Some (Success v i, l) \<Rightarrow> Some (Success v i, log @ l)
      | Some (Failure, l) \<Rightarrow> alt_loop parsers inp st index (log @ l))"

definition alt :: "'a state_base_scheme parser list \<Rightarrow> 'a state_base_scheme parser" where
  "alt parsers = Parser (\<lambda>inp index st. alt_loop parsers inp st index []) None"

definition succeeded :: "jsval \<Rightarrow> 'a state_base_scheme parser" where
  "succeeded v = Parser (\<lambda>inp index st. Some (success index v, [])) None"

definition option_p :: "'a state_base_scheme parser \<Rightarrow> 'a state_base_scheme parser" where
  "option_p this = alt [this, succeeded JNull]"

text \<open>\<open>[result[0], ...result[1]]\<close> on the pair \<open>seq\<close> returns in \<open>sep\<close>.\<close>

fun sep_join :: "jsval \<Rightarrow> jsval" where
  "sep_join (JArr [v, JArr vs]) = JArr (v # vs)"
| "sep_join v = JUndefined"

definition sep ::
  "'a state_base_scheme parser \<Rightarrow> 'a state_base_scheme parser \<Rightarrow> int \<Rightarrow> error + 'a state_base_scheme parser" where
  "sep this separator mn =
     (if mn < 1 then Inl (Error (CHR 0x22 # ''min'' @ CHR 0x22 # '' must be a value greater than or equal to 1.''))
      else Inr (map_p (seq [this, many (select (seq [separator, this]) 1) (mn - 1)]) sep_join))"

subsection \<open>Primitive parsers\<close>

text \<open>\<open>input.substr(index, n)\<close> for an offset \<open>index\<close>.\<close>

definition substr :: "jsstring \<Rightarrow> nat \<Rightarrow> nat \<Rightarrow> jsstring" where
  "substr s index n = take n (drop index s)"

definition str :: "jsstring \<Rightarrow> 'a state_base_scheme parser" where
  "str v = Parser (\<lambda>inp index st.
     if int (length inp) - int index < int (length v) then Some (failure, [])
     else if substr inp index (length v) \<noteq> v then Some (failure, [])
     else Some (success (index + length v) (JStr v), [])) None"

text \<open>
  The regular-expression engine is not part of the repository. The anchored expression
  \<open>re\<close> that \<open>regexp\<close> builds is taken as the function it computes: \<open>re text\<close> is
  \<open>result[0]\<close> of \<open>re.exec(text)\<close>, or \<open>None\<close> when \<open>exec\<close> returns null. (An
  expression with the \<open>g\<close> or \<open>y\<close> flag keeps a \<open>lastIndex\<close> between calls and is not
  such a function, and is outside this model.)
\<close>

definition regexp :: "(jsstring \<Rightarrow> jsstring option) \<Rightarrow> 'a state_base_scheme parser" where
  "regexp re = Parser (\<lambda>inp index st.
     case re (drop index inp) of
       None \<Rightarrow> Some (failure, [])
     | Some m \<Rightarrow> Some (success (index + length m) (JStr m), [])) None"

definition notMatch :: "'a state_base_scheme parser \<Rightarrow> 'a state_base_scheme parser" where
  "notMatch p = Parser (\<lambda>inp index st.
     case handler p inp index st of
       None \<Rightarrow> None
     | Some (r, log) \<Rightarrow> Some (if \<not> is_success r then success index JNull else failure, log)) None"

definition cr :: "'a state_base_scheme parser" where
  "cr = str [0x0D]"

definition lf :: "'a state_base_scheme parser" where
  "lf = str [0x0A]"

definition crlf :: "'a state_base_scheme parser" where
  "crlf = str [0x0D, 0x0A]"

definition newline :: "'a state_base_scheme parser" where
  "newline = alt [crlf, cr, lf]"

definition char :: "'a state_base_scheme parser" where
  "char = Parser (\<lambda>inp index st.
     if int (length inp) - int index < 1 then Some (failure, [])
     else Some (success (index + 1) (JStr [inp ! index]), [])) None"

definition lineBegin :: "'a state_base_scheme parser" where
  "lineBegin = Parser (\<lambda>inp index st.
     if index = 0 then Some (success index JNull, [])
     else (case handler cr inp (index - 1) st of
        None \<Rightarrow> None
      | Some (r1, l1) \<Rightarrow>
          if is_success r1 then Some (success index JNull, l1)
          else (case handler lf inp (index - 1) st of
             None \<Rightarrow> None
           | Some (r2, l2) \<Rightarrow>
               if is_success r2 then Some (success index JNull, l1 @ l2)
               else Some (failure, l1 @ l2)))) None"

definition lineEnd :: "'a state_base_scheme parser" where
  "lineEnd = Parser (\<lambda>inp index st.
     if index = length inp then Some (success index JNull, [])
     else (case handler cr inp index st of
        None \<Rightarrow> None
      | Some (r1, l1) \<Rightarrow>
          if is_success r1 then Some (success index JNull, l1)
          else (case handler lf inp index st of
             None \<Rightarrow> None
           | Some (r2, l2) \<Rightarrow>
               if is_success r2 then Some (success index JNull, l1 @ l2)
               else Some (failure, l1 @ l2)))) None"

text \<open>
  \<open>lazy\<close>: the first call builds \<open>fn()\<close> and stores its handler in the cell; that
  call and every later one run \<open>fn().handler\<close>.
\<close>

definition lazy :: "(unit \<Rightarrow> 'a state_base_scheme parser) \<Rightarrow> 'a state_base_scheme parser" where
  "lazy fn = Parser (\<lambda>inp index st. handler (fn ()) inp index st) None"

section \<open>Grammar rules\<close>

subsection \<open>Nodes and the matcher context\<close>

text \<open>
  Modelled from the spec: the syntax-node constructors of \<open>node\<close>, which are not among
  the source files. The spec has a node as an immutable variant value (text run,
  link, hashtag, ...); only the variants the two rules below build or read are kept.
\<close>

datatype node = TEXT jsstring | URL jsstring | LINK bool jsstring "node list" | HASHTAG jsstring

text \<open>
  Modelled from the spec: \<open>url.props.url\<close>, the target a URL node carries (the node
  module is not among the source files).
\<close>

fun props_url :: "node \<Rightarrow> jsstring" where
  "props_url (URL u) = u"
| "props_url n = []"

text \<open>
  Modelled from the spec: the outcome of a rule on a context, \<open>{ ok: true, result }\<close>
  or \<open>{ ok: false }\<close> (the spec's \<open>Matched\<close> and \<open>NotMatched\<close>; the services module
  that declares it is not among the source files).
\<close>

datatype 'r matched = Ok 'r | NotOk

text \<open>
  Modelled from the spec: the \<open>ok\<close> field of an outcome (same module): true on a match.
\<close>

fun ok :: "'r matched \<Rightarrow> bool" where
  "ok (Ok r) = True"
| "ok NotOk = False"

text \<open>
  Modelled from the spec: \<open>MatcherContext\<close>, the parse context, a mutable record with
  the input and the cursor \<open>pos\<close>. (The class is not among the source files; the
  hashtag rule reads \<open>ctx.input\<close> and reads and writes \<open>ctx.pos\<close>.)
\<close>

record matcher_context =
  input :: jsstring
  pos :: nat

text \<open>
  Modelled from the spec: the context of the link rule, which has the inside-link flag
  \<open>inLink\<close> beside the input and the cursor (the class is not among the source files).
\<close>

record ctx = matcher_context +
  inLink :: bool

text \<open>
  Modelled from the spec: a rule (the \<open>Parser\<close> type of the services module, which is
  not among the source files) runs on the mutable context and returns its outcome; here
  it returns the outcome with the context as it left it.
\<close>

type_synonym ('c, 'r) rule = "'c \<Rightarrow> 'r matched \<times> 'c"

text \<open>\<open>input.charAt(i)\<close>: the code unit at \<open>i\<close> as a string, empty out of range.\<close>

definition charAt :: "jsstring \<Rightarrow> nat \<Rightarrow> jsstring" where
  "charAt s i = (if i < length s then [s ! i] else [])"

text \<open>
  Modelled from the spec: \<open>ctx.fail()\<close> of the context class, which is not among the
  source files. It builds the failed outcome and leaves the context as it is (the
  spec: a failure has no payload, and context flags are not restored automatically).
\<close>

definition ctx_fail :: "'c \<Rightarrow> 'r matched \<times> 'c" where
  "ctx_fail c = (NotOk, c)"

text \<open>
  Modelled from the spec: \<open>ctx.ok(result)\<close> of the context class, which is not among
  the source files. It builds the matched outcome with its value and leaves the
  context as it is.
\<close>

definition ctx_ok :: "'r \<Rightarrow> 'c \<Rightarrow> 'r matched \<times> 'c" where
  "ctx_ok r c = (Ok r, c)"

text \<open>
  Modelled from the spec: \<open>ctx.eof()\<close> of the context class, which is not among the
  source files: the end-of-input assertion, true when the cursor is at the end of the
  input.
\<close>

definition eof :: "'a matcher_context_scheme \<Rightarrow> bool" where
  "eof c = (length (input c) \<le> pos c)"

text \<open>
  Modelled from the spec: \<open>ctx.match(m)\<close> of the context class, which is not among
  the source files. It runs the matcher \<open>m\<close> at the cursor; when \<open>m\<close> fails the
  context is reported unchanged.
\<close>

definition ctx_match :: "('c, 'r) rule \<Rightarrow> 'c \<Rightarrow> 'r matched \<times> 'c" where
  "ctx_match m c = (case m c of (Ok r, c') \<Rightarrow> (Ok r, c') | (NotOk, c') \<Rightarrow> (NotOk, c))"

text \<open>
  Modelled from the spec: \<open>ctx.matchChar(code)\<close> of the context class, which is not
  among the source files: the test whether the code unit at the cursor is \<open>code\<close>,
  without consuming it (the rules test with it and consume with \<open>ctx.char\<close>).
\<close>

definition matchChar :: "16 word \<Rightarrow> 'a matcher_context_scheme \<Rightarrow> bool" where
  "matchChar code c = (charAt (input c) (pos c) = [code])"

text \<open>
  Modelled from the spec: \<open>ctx.char(code)\<close> of the context class, which is not among
  the source files: the literal matcher for one code unit. It consumes the code unit
  when the input at the cursor starts with it, and fails and advances nothing
  otherwise.
\<close>

definition ctx_char :: "16 word \<Rightarrow> 'a matcher_context_scheme \<Rightarrow> 16 word matched \<times> 'a matcher_context_scheme" where
  "ctx_char code c = (if matchChar code c then (Ok code, c\<lparr>pos := pos c + 1\<rparr>) else (NotOk, c))"

text \<open>
  Modelled from the spec: \<open>ctx.str(s)\<close> of the context class, which is not among the
  source files: the literal matcher. It consumes \<open>s\<close> when the input at the cursor
  starts with it, and fails and advances nothing otherwise.
\<close>

definition ctx_str :: "jsstring \<Rightarrow> 'a matcher_context_scheme \<Rightarrow> jsstring matched \<times> 'a matcher_context_scheme" where
  "ctx_str s c =
     (if substr (input c) (pos c) (length s) = s then (Ok s, c\<lparr>pos := pos c + length s\<rparr>)
      else (NotOk, c))"

text \<open>
  Modelled from the spec: \<open>ctx.parser(p)\<close> of the context class, which is not among
  the source files: it runs the rule \<open>p\<close> on the context.
\<close>

definition ctx_parser :: "('c, 'r) rule \<Rightarrow> 'c \<Rightarrow> 'r matched \<times> 'c" where
  "ctx_parser p c = p c"

text \<open>
  Modelled from the spec: \<open>ctx.choice(ps)\<close> of the context class, which is not among
  the source files: ordered alternation. It tries each rule in the listed order at the
  same starting position and returns the first success; it fails only if all fail.
  Flags a failed alternative has set are not restored.
\<close>

fun choice :: "('a matcher_context_scheme, 'r) rule list \<Rightarrow> 'a matcher_context_scheme
    \<Rightarrow> 'r matched \<times> 'a matcher_context_scheme" where
  "choice [] c = (NotOk, c)"
| "choice (p # ps) c =
     (case p c of (Ok r, c') \<Rightarrow> (Ok r, c') | (NotOk, c') \<Rightarrow> choice ps (c'\<lparr>pos := pos c\<rparr>))"

text \<open>
  Modelled from the spec: \<open>CharCode.hash\<close>, the code unit of \<open>#\<close> (the \<open>CharCode\<close>
  table is not among the source files).
\<close>

definition hash :: "16 word" where
  "hash = 0x23"

text \<open>Modelled from the spec: \<open>CharCode.question\<close>, the code unit of \<open>?\<close> (same table).\<close>

definition question :: "16 word" where
  "question = 0x3F"

text \<open>Modelled from the spec: \<open>CharCode.openBracket\<close>, the code unit of \<open>[\<close> (same table).\<close>

definition openBracket :: "16 word" where
  "openBracket = 0x5B"

text \<open>Modelled from the spec: \<open>CharCode.closeBracket\<close>, the code unit of \<open>]\<close> (same table).\<close>

definition closeBracket :: "16 word" where
  "closeBracket = 0x5D"

text \<open>Modelled from the spec: \<open>CharCode.closeParen\<close>, the code unit of \<open>)\<close> (same table).\<close>

definition closeParen :: "16 word" where
  "closeParen = 0x29"

subsection \<open>The hashtag rule\<close>

text \<open>\<open>input.charCodeAt(i)\<close>: the code unit at \<open>i\<close>, or \<open>NaN\<close> (here \<open>None\<close>) out of range.\<close>

definition charCodeAt :: "jsstring \<Rightarrow> nat \<Rightarrow> 16 word option" where
  "charCodeAt s i = (if i < length s then Some (s ! i) else None)"

text \<open>
  The character class that ends a hashtag: space, U+3000, tab, \<open>. , ! ? ' " # : / [ ]\<close>,
  U+3010, U+3011, \<open>( )\<close>, U+300C, U+300D, \<open>< >\<close>. None of them has another case, so
  the \<open>i\<close> flag adds nothing. The test is anchored: it reads the first code unit of
  the string, and fails on the empty string.
\<close>

definition delimiters :: "16 word list" where
  "delimiters = [0x20, 0x3000, 0x09, 0x2E, 0x2C, 0x21, 0x3F, 0x27, 0x22, 0x23, 0x3A, 0x2F,
     0x5B, 0x5D, 0x3010, 0x3011, 0x28, 0x29, 0x300C, 0x300D, 0x3C, 0x3E]"

fun is_delimiter :: "jsstring \<Rightarrow> bool" where
  "is_delimiter [] = False"
| "is_delimiter (c # cs) = (c \<in> set delimiters)"

text \<open>\<open>/^[0-9]+$/.test(v)\<close>: one or more code units, each an ASCII digit.\<close>

definition digits_only :: "jsstring \<Rightarrow> bool" where
  "digits_only v = (v \<noteq> [] \<and> list_all (\<lambda>c. 0x30 \<le> c \<and> c \<le> 0x39) v)"

text \<open>
  The \<open>while (true)\<close> loop that scans the value. \<open>LfMatcher\<close> (not among the source
  files) is a parameter.
\<close>

function hashtag_value ::
  "('a matcher_context_scheme, 'r) rule \<Rightarrow> 'a matcher_context_scheme \<Rightarrow> jsstring
    \<Rightarrow> 'a matcher_context_scheme \<times> jsstring" where
  "hashtag_value LfMatcher c v =
     (if is_delimiter (charAt (input c) (pos c)) then (c, v)
      else (case ctx_match LfMatcher c of
         (Ok r, c') \<Rightarrow> (c', v)
       | (NotOk, c') \<Rightarrow>
           if eof c' then (c', v)
           else hashtag_value LfMatcher (c'\<lparr>pos := pos c' + 1\<rparr>) (v @ charAt (input c') (pos c'))))"
  by pat_completeness auto
termination
proof (relation "measure (\<lambda>(m, c, v). length (input c) - pos c)")
  show "wf (measure (\<lambda>(m :: ('a matcher_context_scheme, 'r) rule, c, v :: jsstring). length (input c) - pos c))"
    by simp
next
  fix LfMatcher :: "('a matcher_context_scheme, 'r) rule" and c v x1 c'
  assume "(x1, c') = ctx_match LfMatcher c" "x1 = NotOk" "\<not> eof c'"
  then have "c' = c"
    by (auto simp: ctx_match_def split: prod.splits matched.splits)
  with \<open>\<not> eof c'\<close> show "((LfMatcher, c'\<lparr>pos := pos c' + 1\<rparr>, v @ charAt (input c') (pos c')), LfMatcher, c, v)
      \<in> measure (\<lambda>(m, c, v). length (input c) - pos c)"
    by (simp add: eof_def)
qed

declare hashtag_value.simps [simp del]

text \<open>\<open>isAllowedAsBackChar\<close> (not among the source files) is a parameter.\<close>

definition hashtagMatcher ::
  "('a matcher_context_scheme \<Rightarrow> bool) \<Rightarrow> ('a matcher_context_scheme, 'r) rule
    \<Rightarrow> 'a matcher_context_scheme \<Rightarrow> node matched \<times> 'a matcher_context_scheme" where
  "hashtagMatcher isAllowedAsBackChar LfMatcher c =
     (if \<not> isAllowedAsBackChar c then ctx_fail c
      else if charCodeAt (input c) (pos c) \<noteq> Some hash then ctx_fail c
      else (case hashtag_value LfMatcher (c\<lparr>pos := pos c + 1\<rparr>) [] of
         (c', v) \<Rightarrow>
           if length v = 0 \<or> digits_only v then ctx_fail c'
           else ctx_ok (HASHTAG v) c'))"

subsection \<open>The link rule\<close>

text \<open>
  The label loop. \<open>inlineParser\<close> and \<open>pushNode\<close> (not among the source files) are
  parameters. Nothing but the closing bracket or a failure of \<open>inlineParser\<close> ends the
  loop, so it is a partial function.
\<close>

partial_function (option) link_label ::
  "('a ctx_scheme, node) rule \<Rightarrow> (node \<Rightarrow> node list \<Rightarrow> node list) \<Rightarrow> 'a ctx_scheme \<Rightarrow> node list
    \<Rightarrow> ('a ctx_scheme \<times> node list) option" where
  "link_label inlineParser pushNode c label =
     (if matchChar closeBracket c then Some (c, label)
      else (case ctx_parser inlineParser c of
         (NotOk, c') \<Rightarrow> Some (c', label)
       | (Ok r, c') \<Rightarrow> link_label inlineParser pushNode c' (pushNode r label)))"

declare link_label.simps [code]

text \<open>
  Modelled from the spec: \<open>syntax(name, rule_body)\<close> of the services module, which is not
  among the source files. It registers the body as the rule of that name; the spec gives
  a named rule no effect on the context's flags beyond its body's, so the rule runs its
  body.
\<close>

definition syntax_p :: "jsstring \<Rightarrow> ('c \<Rightarrow> 'x) \<Rightarrow> 'c \<Rightarrow> 'x" where
  "syntax_p nm rule_body = rule_body"

text \<open>
  The link rule. \<open>urlAltParser\<close> and \<open>urlParser\<close> (not among the source files) are
  parameters, as \<open>inlineParser\<close> and \<open>pushNode\<close> are. The rule returns \<open>None\<close> when
  its label loop never ends.
\<close>

definition linkParser ::
  "('a ctx_scheme, node) rule \<Rightarrow> ('a ctx_scheme, node) rule \<Rightarrow> ('a ctx_scheme, node) rule
    \<Rightarrow> (node \<Rightarrow> node list \<Rightarrow> node list) \<Rightarrow> 'a ctx_scheme \<Rightarrow> (node matched \<times> 'a ctx_scheme) option" where
  "linkParser inlineParser urlAltParser urlParser pushNode =
     syntax_p [0x6C, 0x69, 0x6E, 0x6B] (\<lambda>c0.
      case ctx_char question c0 of (matched, c1) \<Rightarrow>
      let silent = ok matched in
      (case ctx_char openBracket c1 of (m2, c2) \<Rightarrow>
        if \<not> ok m2 then Some (ctx_fail c2)
        else (case link_label inlineParser pushNode (c2\<lparr>inLink := True\<rparr>) [] of
           None \<Rightarrow> None
         | Some (c3, label) \<Rightarrow>
             let c4 = c3\<lparr>inLink := False\<rparr> in
             if length label < 1 then Some (ctx_fail c4)
             else (case ctx_str [0x5D, 0x28] c4 of (m5, c5) \<Rightarrow>
               if \<not> ok m5 then Some (ctx_fail c5)
               else (case choice [urlAltParser, urlParser] c5 of
                  (NotOk, c6) \<Rightarrow> Some (ctx_fail c6)
                | (Ok url, c6) \<Rightarrow>
                    (case ctx_char closeParen c6 of (m7, c7) \<Rightarrow>
                      if \<not> ok m7 then Some (ctx_fail c7)
                      else Some (ctx_ok (LINK silent (props_url url) label) c7)))))))"

section \<open>Predicates on parsers and rules\<close>

text \<open>A parser whose every success carries an index at or after the index it was called with.\<close>

definition advancing :: "'a state_base_scheme parser \<Rightarrow> bool" where
  "advancing p = (\<forall>inp index st v i log. handler p inp index st = Some (Success v i, log) \<longrightarrow> index \<le> i)"

text \<open>
  The outcome of a call: the result without the console lines, \<open>None\<close> when the call
  does not return.
\<close>

definition outcome :: "'a state_base_scheme parser \<Rightarrow> jsstring \<Rightarrow> nat \<Rightarrow> 'a state_base_scheme \<Rightarrow> result option" where
  "outcome p inp index st = map_option fst (handler p inp index st)"

text \<open>
  The parsers built from the engine: its primitives, closed under its combinators,
  under \<open>lazy\<close> and under setting the name field (as \<open>createLanguage\<close> does for each
  rule). \<open>select\<close>, \<open>option\<close>, \<open>sep\<close> and \<open>newline\<close> are built from these.
\<close>

inductive engine :: "'a state_base_scheme parser \<Rightarrow> bool" where
  e_str: "engine (str s)"
| e_regexp: "engine (regexp re)"
| e_char: "engine char"
| e_lineBegin: "engine lineBegin"
| e_lineEnd: "engine lineEnd"
| e_succeeded: "engine (succeeded v)"
| e_notMatch: "engine p \<Longrightarrow> engine (notMatch p)"
| e_map: "engine p \<Longrightarrow> engine (map_p p fn)"
| e_text: "engine p \<Longrightarrow> engine (text_p p)"
| e_many: "engine p \<Longrightarrow> engine (many p mn)"
| e_seq: "\<forall>p\<in>set ps. engine p \<Longrightarrow> engine (seq ps)"
| e_alt: "\<forall>p\<in>set ps. engine p \<Longrightarrow> engine (alt ps)"
| e_lazy: "engine (fn ()) \<Longrightarrow> engine (lazy fn)"
| e_named: "engine p \<Longrightarrow> engine (p\<lparr>name := n\<rparr>)"

text \<open>A rule that leaves the inside-link flag of the context as it found it.\<close>

definition keeps_inLink :: "('a ctx_scheme, 'r) rule \<Rightarrow> bool" where
  "keeps_inLink p = (\<forall>c. inLink (snd (p c)) = inLink c)"

section \<open>Properties of the engine\<close>

subsection \<open>Handlers of the primitives\<close>

lemma handler_unnamed: "handler (Parser h None) = h"
  by (intro ext) (simp add: handler_def Parser_def)

lemma handler_str_eq:
  "handler (str s) inp index st =
     (if index + length s \<le> length inp \<and> take (length s) (drop index inp) = s
      then Some (Success (JStr s) (index + length s), [])
      else Some (Failure, []))"
  by (auto simp add: str_def handler_unnamed substr_def success_def failure_def)

lemma handler_cr:
  "handler cr inp index st =
     (if index < length inp \<and> inp ! index = 0x0D then Some (Success (JStr [0x0D]) (index + 1), [])
      else Some (Failure, []))"
  by (auto simp add: cr_def handler_str_eq take_Suc_conv_app_nth hd_drop_conv_nth take_Suc)

lemma handler_lf:
  "handler lf inp index st =
     (if index < length inp \<and> inp ! index = 0x0A then Some (Success (JStr [0x0A]) (index + 1), [])
      else Some (Failure, []))"
  by (auto simp add: lf_def handler_str_eq take_Suc_conv_app_nth hd_drop_conv_nth take_Suc)

lemma handler_lineBegin:
  "handler lineBegin inp index st =
     Some (if index = 0 \<or> (index \<le> length inp \<and> (inp ! (index - 1) = 0x0D \<or> inp ! (index - 1) = 0x0A))
           then Success JNull index else Failure, [])"
  by (cases index) (auto simp add: lineBegin_def handler_unnamed handler_cr handler_lf success_def failure_def)

lemma handler_lineEnd:
  "handler lineEnd inp index st =
     Some (if index = length inp \<or> (index < length inp \<and> (inp ! index = 0x0D \<or> inp ! index = 0x0A))
           then Success JNull index else Failure, [])"
  by (auto simp add: lineEnd_def handler_unnamed handler_cr handler_lf success_def failure_def)

subsection \<open>The literal matcher\<close>

text \<open>
  C7. \<open>str s\<close> at \<open>index\<close>: when the input at that index starts with \<open>s\<close> (the input is
  \<open>index\<close> code units, then \<open>s\<close>, then a rest) it succeeds with the value \<open>s\<close> and the
  index advanced by the length of \<open>s\<close>; in every other case, also when fewer than
  \<open>length s\<close> code units remain, it fails. A failure is the bare \<open>Failure\<close>: it carries
  no index, so the caller keeps its own. No console line is written.
\<close>

theorem str_literal:
  "handler (str s) inp index st =
     (if (\<exists>pre post. inp = pre @ s @ post \<and> length pre = index)
      then Some (Success (JStr s) (index + length s), [])
      else Some (Failure, []))"
proof (cases "\<exists>pre post. inp = pre @ s @ post \<and> length pre = index")
  case True
  then obtain pre post where "inp = pre @ s @ post" "length pre = index" by blast
  then have "handler (str s) inp index st = Some (Success (JStr s) (index + length s), [])"
    by (simp add: handler_str_eq)
  with True show ?thesis by simp
next
  case False
  have "\<not> (index + length s \<le> length inp \<and> take (length s) (drop index inp) = s)"
  proof
    assume a: "index + length s \<le> length inp \<and> take (length s) (drop index inp) = s"
    then have "inp = take index inp @ s @ drop (length s) (drop index inp)"
      by (metis append_take_drop_id)
    moreover have "length (take index inp) = index" using a by simp
    ultimately show False using False by blast
  qed
  with False show ?thesis by (simp add: handler_str_eq)
qed

subsection \<open>Line boundaries\<close>

text \<open>
  C3, as the code has it. \<open>lineBegin\<close> succeeds exactly at index 0 or when the code
  unit before the index is CR or LF; \<open>lineEnd\<close> succeeds exactly at the input's length
  or when the code unit at the index is CR or LF. Each of the two code units is tested
  alone (CR first); the pair CR LF is not tested as a unit, so between the CR and the
  LF of a pair both succeed. Both return the index they were called with.
\<close>

theorem line_boundaries:
  "handler lineBegin inp index st =
     Some (if index = 0 \<or> (index \<le> length inp \<and> (inp ! (index - 1) = 0x0D \<or> inp ! (index - 1) = 0x0A))
           then Success JNull index else Failure, [])
   \<and> handler lineEnd inp index st =
     Some (if index = length inp \<or> (index < length inp \<and> (inp ! index = 0x0D \<or> inp ! index = 0x0A))
           then Success JNull index else Failure, [])
   \<and> handler lineBegin (pre @ [0x0D, 0x0A] @ post) (length pre + 1) st = Some (Success JNull (length pre + 1), [])
   \<and> handler lineEnd (pre @ [0x0D, 0x0A] @ post) (length pre + 1) st = Some (Success JNull (length pre + 1), [])"
  by (simp add: handler_lineBegin handler_lineEnd nth_append)

text \<open>
  C3 as stated fails: on the input CR LF the terminator found in priority order
  (\<open>newline\<close>, which tries the pair first) starts at 0 and ends at 2, so index 1 is
  neither the start of the input nor immediately after that terminator, and it is
  inside it rather than before it; yet \<open>lineBegin\<close> and \<open>lineEnd\<close> both succeed there.
\<close>

theorem line_boundaries_inside_crlf:
  "handler newline [0x0D, 0x0A] 0 \<lparr>trace = None\<rparr> = Some (Success (JStr [0x0D, 0x0A]) 2, [])
   \<and> handler lineBegin [0x0D, 0x0A] 1 \<lparr>trace = None\<rparr> = Some (Success JNull 1, [])
   \<and> handler lineEnd [0x0D, 0x0A] 1 \<lparr>trace = None\<rparr> = Some (Success JNull 1, [])"
  by (simp add: handler_lineBegin handler_lineEnd newline_def crlf_def alt_def handler_unnamed handler_str_eq)

subsection \<open>Optional\<close>

text \<open>
  C5. \<open>option\<close> never returns a failure. Whenever \<open>p\<close> returns, \<open>p.option()\<close> returns a
  success: the value and index of \<open>p\<close> when \<open>p\<close> succeeds, the value \<open>null\<close> at the
  unchanged index when \<open>p\<close> fails. (It calls \<open>p\<close>, so it returns only if \<open>p\<close> does.)
\<close>

theorem option_never_fails:
  "handler (option_p p) inp index st =
     (case handler p inp index st of
        None \<Rightarrow> None
      | Some (Success v i, log) \<Rightarrow> Some (Success v i, log)
      | Some (Failure, log) \<Rightarrow> Some (Success JNull index, log))"
  by (simp add: option_p_def alt_def handler_unnamed succeeded_def success_def
      split: option.splits prod.splits result.splits)

subsection \<open>The loop of many\<close>

lemma advancingD: "advancing p \<Longrightarrow> handler p inp index st = Some (Success v i, log) \<Longrightarrow> index \<le> i"
  unfolding advancing_def by blast

lemma many_loop_result:
  assumes "many_loop p inp st i acc log = Some y"
  shows "(advancing p \<longrightarrow> i \<le> fst y) \<and> length acc \<le> length (fst (snd y))"
proof (rule many_loop.raw_induct[where P = "\<lambda>p inp st i acc log y.
    (advancing p \<longrightarrow> i \<le> fst y) \<and> length acc \<le> length (fst (snd y))", OF _ assms])
  fix f and p :: "'a state_base_scheme parser" and inp st i acc log y
  assume IH: "\<And>p inp st i acc log y. f p inp st i acc log = Some y \<Longrightarrow>
      (advancing p \<longrightarrow> i \<le> fst y) \<and> length acc \<le> length (fst (snd y))"
    and body: "(if i < length inp
      then case handler p inp i st of None \<Rightarrow> None
           | Some (Success v j, l) \<Rightarrow> f p inp st j (acc @ [v]) (log @ l)
           | Some (Failure, l) \<Rightarrow> Some (i, acc, log @ l)
      else Some (i, acc, log)) = Some y"
  show "(advancing p \<longrightarrow> i \<le> fst y) \<and> length acc \<le> length (fst (snd y))"
  proof (cases "i < length inp")
    case False
    with body show ?thesis by auto
  next
    case True
    show ?thesis
    proof (cases "handler p inp i st")
      case None
      with body True show ?thesis by simp
    next
      case (Some rl)
      obtain r l where rl: "rl = (r, l)" by (cases rl)
      show ?thesis
      proof (cases r)
        case Failure
        with body True Some rl show ?thesis by auto
      next
        case (Success v j)
        with body True Some rl have "f p inp st j (acc @ [v]) (log @ l) = Some y" by simp
        from IH[OF this] have a: "advancing p \<longrightarrow> j \<le> fst y" and b: "length (acc @ [v]) \<le> length (fst (snd y))"
          by blast+
        have "advancing p \<longrightarrow> i \<le> j"
          using Some rl Success advancingD by blast
        with a b show ?thesis by auto
      qed
    qed
  qed
qed

lemma many_loop_returns:
  assumes prog: "\<And>i v j l. i < length inp \<Longrightarrow> handler p inp i st = Some (Success v j, l) \<Longrightarrow> i < j"
    and ret: "\<And>i. i < length inp \<Longrightarrow> handler p inp i st \<noteq> None"
  shows "many_loop p inp st i acc log \<noteq> None"
proof (induction "length inp - i" arbitrary: i acc log rule: less_induct)
  case less
  show ?case
  proof (cases "i < length inp")
    case False
    then show ?thesis by (subst many_loop.simps) simp
  next
    case True
    with ret obtain r l where h: "handler p inp i st = Some (r, l)" by fastforce
    show ?thesis
    proof (cases r)
      case Failure
      with h True show ?thesis by (subst many_loop.simps) simp
    next
      case (Success v j)
      with prog[OF True] h have "i < j" by blast
      with True have "length inp - j < length inp - i" by simp
      from less[OF this] have "many_loop p inp st j (acc @ [v]) (log @ l) \<noteq> None" .
      with h True Success show ?thesis by (subst many_loop.simps) simp
    qed
  qed
qed

lemma many_loop_stops:
  assumes "many_loop p inp st i acc log = Some y"
  shows "length inp \<le> fst y \<or> (\<exists>l. handler p inp (fst y) st = Some (Failure, l))"
proof (rule many_loop.raw_induct[where P = "\<lambda>p inp st i acc log y.
    length inp \<le> fst y \<or> (\<exists>l. handler p inp (fst y) st = Some (Failure, l))", OF _ assms])
  fix f and p :: "'a state_base_scheme parser" and inp st i acc log y
  assume IH: "\<And>p inp st i acc log y. f p inp st i acc log = Some y \<Longrightarrow>
      length inp \<le> fst y \<or> (\<exists>l. handler p inp (fst y) st = Some (Failure, l))"
    and body: "(if i < length inp
      then case handler p inp i st of None \<Rightarrow> None
           | Some (Success v j, l) \<Rightarrow> f p inp st j (acc @ [v]) (log @ l)
           | Some (Failure, l) \<Rightarrow> Some (i, acc, log @ l)
      else Some (i, acc, log)) = Some y"
  show "length inp \<le> fst y \<or> (\<exists>l. handler p inp (fst y) st = Some (Failure, l))"
  proof (cases "i < length inp")
    case False
    with body show ?thesis by auto
  next
    case True
    show ?thesis
    proof (cases "handler p inp i st")
      case None
      with body True show ?thesis by simp
    next
      case (Some rl)
      obtain r l where rl: "rl = (r, l)" by (cases rl)
      show ?thesis
      proof (cases r)
        case Failure
        with body True Some rl show ?thesis by auto
      next
        case (Success v j)
        with body True Some rl have "f p inp st j (acc @ [v]) (log @ l) = Some y" by simp
        from IH[OF this] show ?thesis .
      qed
    qed
  qed
qed

lemma zero_width_loops: "many_loop lineBegin [0x61] st 0 acc log = None"
proof (rule ccontr)
  assume "many_loop lineBegin [0x61] st 0 acc log \<noteq> None"
  then obtain y where y: "many_loop lineBegin [0x61] st 0 acc log = Some y" by blast
  have "\<not> (lineBegin = (lineBegin :: 'a state_base_scheme parser) \<and> [0x61 :: 16 word] = [0x61] \<and> (0::nat) = 0)"
  proof (rule many_loop.raw_induct[where P = "\<lambda>p inp st i acc log y.
      \<not> (p = lineBegin \<and> inp = [0x61] \<and> i = 0)", OF _ y])
    fix f and p :: "'a state_base_scheme parser" and inp st i acc log y
    assume IH: "\<And>p inp st i acc log y. f p inp st i acc log = Some y \<Longrightarrow>
        \<not> (p = lineBegin \<and> inp = [0x61] \<and> i = 0)"
      and body: "(if i < length inp
        then case handler p inp i st of None \<Rightarrow> None
             | Some (Success v j, l) \<Rightarrow> f p inp st j (acc @ [v]) (log @ l)
             | Some (Failure, l) \<Rightarrow> Some (i, acc, log @ l)
        else Some (i, acc, log)) = Some y"
    show "\<not> (p = lineBegin \<and> inp = [0x61] \<and> i = 0)"
    proof
      assume a: "p = lineBegin \<and> inp = [0x61] \<and> i = 0"
      then have "handler p inp i st = Some (Success JNull 0, [])"
        by (simp add: lineBegin_def handler_unnamed success_def)
      with body a have "f lineBegin [0x61] st 0 (acc @ [JNull]) (log @ []) = Some y" by simp
      from IH[OF this] show False by simp
    qed
  qed
  then show False by simp
qed

text \<open>
  C1, as the code has it. \<open>many\<close> returns whenever the sub-parser \<open>p\<close> returns at every
  index below the input's length and each success of \<open>p\<close> there carries a strictly
  greater index: the loop then ends at the end of the input or at a failure of \<open>p\<close>,
  and \<open>many\<close> returns the accumulated values (or fails when they are fewer than
  \<open>min\<close>). Nothing in the loop guards against a success that consumes nothing.
\<close>

theorem many_terminates_with_progress:
  assumes "\<forall>i v j l. i < length inp \<longrightarrow> handler p inp i st = Some (Success v j, l) \<longrightarrow> i < j"
    and "\<forall>i. i < length inp \<longrightarrow> handler p inp i st \<noteq> None"
  shows "\<exists>j acc log. many_loop p inp st index [] [] = Some (j, acc, log)
      \<and> (length inp \<le> j \<or> (\<exists>l. handler p inp j st = Some (Failure, l)))
      \<and> handler (many p mn) inp index st
          = Some (if int (length acc) < mn then Failure else Success (JArr acc) j, log)"
proof -
  have "many_loop p inp st index [] [] \<noteq> None"
    using assms by (intro many_loop_returns) blast+
  then obtain j acc log where y: "many_loop p inp st index [] [] = Some (j, acc, log)"
    by (cases "many_loop p inp st index [] []") auto
  from many_loop_stops[OF y]
  have "length inp \<le> j \<or> (\<exists>l. handler p inp j st = Some (Failure, l))" by simp
  moreover have "handler (many p mn) inp index st
      = Some (if int (length acc) < mn then Failure else Success (JArr acc) j, log)"
    using y by (simp add: many_def handler_unnamed success_def failure_def)
  ultimately show ?thesis using y by blast
qed

theorem many_terminates_with_progress_witness:
  "handler (many char 0) [0x61, 0x62] 0 \<lparr>trace = None\<rparr>
     = Some (Success (JArr [JStr [0x61], JStr [0x62]]) 2, [])"
proof -
  have a: "\<forall>i v j l. i < length [0x61, 0x62 :: 16 word] \<longrightarrow>
      handler char [0x61, 0x62] i \<lparr>trace = None\<rparr> = Some (Success v j, l) \<longrightarrow> i < j"
    by (simp add: char_def handler_unnamed success_def failure_def)
  have b: "\<forall>i. i < length [0x61, 0x62 :: 16 word] \<longrightarrow> handler char [0x61, 0x62] i \<lparr>trace = None\<rparr> \<noteq> None"
    by (simp add: char_def handler_unnamed success_def failure_def)
  from many_terminates_with_progress[OF a b, of 0 0]
  obtain j acc log where y: "many_loop char [0x61, 0x62] \<lparr>trace = None\<rparr> 0 [] [] = Some (j, acc, log)"
    and h: "handler (many char 0) [0x61, 0x62] 0 \<lparr>trace = None\<rparr>
        = Some (if int (length acc) < 0 then Failure else Success (JArr acc) j, log)"
    by blast
  have "many_loop char [0x61, 0x62] \<lparr>trace = None\<rparr> 0 [] [] = Some (2, [JStr [0x61], JStr [0x62]], [])"
    by code_simp
  with y have "j = 2" "acc = [JStr [0x61], JStr [0x62]]" "log = []" by simp_all
  with h show ?thesis by simp
qed

text \<open>
  C1 as stated fails: \<open>lineBegin\<close> succeeds at index 0 without consuming input, so on
  the one-character input \<open>a\<close> the loop of \<open>lineBegin.many(0)\<close> calls it at index 0 for
  ever and \<open>many\<close> never returns.
\<close>

theorem many_zero_width_never_returns:
  "handler (many lineBegin 0) [0x61] 0 \<lparr>trace = None\<rparr> = None"
  by (simp add: many_def handler_unnamed zero_width_loops)

text \<open>
  C8. \<open>many\<close> called at the end of the input returns the empty accumulation, a success
  when \<open>min \<le> 0\<close> and a failure otherwise, whatever \<open>p\<close> is: also for a \<open>p\<close> that would
  succeed there without consuming, and for one that would never return, so \<open>p\<close> is not
  called (and no console line is written). The loop itself does the same whenever it
  reaches the end of the input: it returns what it has accumulated.
\<close>

theorem many_skips_end_of_input:
  "handler (many p mn) inp (length inp) st
     = Some (if 0 < mn then Failure else Success (JArr []) (length inp), [])
   \<and> many_loop p inp st (length inp) accum log = Some (length inp, accum, log)"
  by (simp add: many_def handler_unnamed many_loop.simps success_def failure_def)

subsection \<open>Successes never move backwards\<close>

lemma advancing_str: "advancing (str s)"
  by (simp add: advancing_def handler_str_eq)

lemma advancing_regexp: "advancing (regexp re)"
  by (auto simp add: advancing_def regexp_def handler_unnamed success_def failure_def split: option.splits)

lemma advancing_char: "advancing char"
  by (auto simp add: advancing_def char_def handler_unnamed success_def failure_def split: if_splits)

lemma advancing_lineBegin: "advancing lineBegin"
  by (auto simp add: advancing_def handler_lineBegin split: if_splits)

lemma advancing_lineEnd: "advancing lineEnd"
  by (auto simp add: advancing_def handler_lineEnd split: if_splits)

lemma advancing_notMatch: "advancing (notMatch p)"
  by (auto simp add: advancing_def notMatch_def handler_unnamed success_def failure_def
      split: option.splits if_splits)

lemma advancing_succeeded: "advancing (succeeded v)"
  by (simp add: advancing_def succeeded_def handler_unnamed success_def)

lemma advancing_map:
  assumes "advancing p" shows "advancing (map_p p fn)"
  unfolding advancing_def
proof (intro allI impI)
  fix inp index st v i log
  assume "handler (map_p p fn) inp index st = Some (Success v i, log)"
  then obtain w where "handler p inp index st = Some (Success w i, log)"
    by (auto simp add: map_p_def handler_unnamed success_def split: option.splits result.splits)
  with assms show "index \<le> i" by (rule advancingD)
qed

lemma advancing_text:
  assumes "advancing p" shows "advancing (text_p p)"
  unfolding advancing_def
proof (intro allI impI)
  fix inp index st v i log
  assume "handler (text_p p) inp index st = Some (Success v i, log)"
  then obtain w where "handler p inp index st = Some (Success w i, log)"
    by (auto simp add: text_p_def handler_unnamed success_def split: option.splits result.splits)
  with assms show "index \<le> i" by (rule advancingD)
qed

lemma advancing_many:
  assumes "advancing p" shows "advancing (many p mn)"
  unfolding advancing_def
proof (intro allI impI)
  fix inp index st v i log
  assume "handler (many p mn) inp index st = Some (Success v i, log)"
  then obtain acc where "many_loop p inp st index [] [] = Some (i, acc, log)"
    by (auto simp add: many_def handler_unnamed success_def failure_def split: option.splits if_splits)
  from many_loop_result[OF this] assms show "index \<le> i" by simp
qed

lemma seq_loop_advances:
  assumes "\<forall>p\<in>set ps. advancing p" and "seq_loop ps inp st i acc log = Some (Success v j, l)"
  shows "i \<le> j"
  using assms
proof (induction ps arbitrary: i acc log)
  case Nil
  then show ?case by (simp add: success_def)
next
  case (Cons p ps)
  from Cons.prems(2) obtain w k m where h: "handler p inp i st = Some (Success w k, m)"
    and rest: "seq_loop ps inp st k (acc @ [w]) (log @ m) = Some (Success v j, l)"
    by (auto split: option.splits result.splits)
  from Cons.prems(1) h have "i \<le> k" by (auto dest: advancingD)
  moreover from Cons.IH[OF _ rest] Cons.prems(1) have "k \<le> j" by simp
  ultimately show ?case by simp
qed

lemma advancing_seq:
  assumes "\<forall>p\<in>set ps. advancing p" shows "advancing (seq ps)"
  unfolding advancing_def
  by (auto simp add: seq_def handler_unnamed intro: seq_loop_advances[OF assms])

lemma alt_loop_advances:
  assumes "\<forall>p\<in>set ps. advancing p" and "alt_loop ps inp st i log = Some (Success v j, l)"
  shows "i \<le> j"
  using assms
proof (induction ps arbitrary: log)
  case Nil
  then show ?case by (simp add: failure_def)
next
  case (Cons p ps)
  show ?case
  proof (cases "handler p inp i st")
    case None
    with Cons.prems(2) show ?thesis by simp
  next
    case (Some rl)
    obtain r m where rl: "rl = (r, m)" by (cases rl)
    show ?thesis
    proof (cases r)
      case (Success w k)
      with Some rl Cons.prems(2) have "k = j" by simp
      moreover from Cons.prems(1) Some rl Success have "i \<le> k" by (auto dest: advancingD)
      ultimately show ?thesis by simp
    next
      case Failure
      with Some rl Cons.prems(2) have "alt_loop ps inp st i (log @ m) = Some (Success v j, l)" by simp
      from Cons.IH[OF _ this] Cons.prems(1) show ?thesis by simp
    qed
  qed
qed

lemma advancing_alt:
  assumes "\<forall>p\<in>set ps. advancing p" shows "advancing (alt ps)"
  unfolding advancing_def
  by (auto simp add: alt_def handler_unnamed intro: alt_loop_advances[OF assms])

lemma advancing_option:
  assumes "advancing p" shows "advancing (option_p p)"
  unfolding option_p_def using assms by (intro advancing_alt) (simp add: advancing_succeeded)

lemma advancing_select:
  assumes "advancing p" shows "advancing (select p key)"
  unfolding select_def using assms by (rule advancing_map)

lemma advancing_sep:
  assumes "advancing p" "advancing separator" "sep p separator mn = Inr q"
  shows "advancing q"
proof -
  from assms(3) have q: "q = map_p (seq [p, many (select (seq [separator, p]) 1) (mn - 1)]) sep_join"
    by (simp add: sep_def split: if_splits)
  have "advancing (seq [separator, p])" using assms by (intro advancing_seq) simp
  then have "advancing (many (select (seq [separator, p]) 1) (mn - 1))"
    by (intro advancing_many advancing_select)
  with assms(1) show ?thesis unfolding q by (intro advancing_map advancing_seq) simp
qed

lemma advancing_lazy:
  assumes "advancing (fn ())" shows "advancing (lazy fn)"
  using assms by (simp add: advancing_def lazy_def handler_unnamed)

text \<open>
  C4. Every success carries an index at or after the index the parser was called
  with: for \<open>str\<close>, \<open>regexp\<close>, \<open>char\<close>, \<open>lineBegin\<close>, \<open>lineEnd\<close> and \<open>notMatch\<close>
  unconditionally, and for \<open>map\<close>, \<open>text\<close>, \<open>many\<close>, \<open>option\<close>, \<open>sep\<close>, \<open>seq\<close>, \<open>alt\<close>
  and \<open>lazy\<close> whenever all their sub-parsers have the same property.
\<close>

theorem success_never_rewinds:
  "advancing (str s) \<and> advancing (regexp re) \<and> advancing char \<and> advancing lineBegin
   \<and> advancing lineEnd \<and> advancing (notMatch p0)
   \<and> (advancing p \<longrightarrow>
        advancing (map_p p fn) \<and> advancing (text_p p) \<and> advancing (many p mn) \<and> advancing (option_p p))
   \<and> (advancing p \<and> advancing separator \<and> sep p separator mn = Inr q \<longrightarrow> advancing q)
   \<and> ((\<forall>p\<in>set ps. advancing p) \<longrightarrow> advancing (seq ps) \<and> advancing (alt ps))
   \<and> (advancing (lz ()) \<longrightarrow> advancing (lazy lz))"
proof (intro conjI impI)
  show "advancing (str s)" by (rule advancing_str)
  show "advancing (regexp re)" by (rule advancing_regexp)
  show "advancing char" by (rule advancing_char)
  show "advancing lineBegin" by (rule advancing_lineBegin)
  show "advancing lineEnd" by (rule advancing_lineEnd)
  show "advancing (notMatch p0)" by (rule advancing_notMatch)
next
  assume "advancing p"
  then show "advancing (map_p p fn)" by (rule advancing_map)
next
  assume "advancing p"
  then show "advancing (text_p p)" by (rule advancing_text)
next
  assume "advancing p"
  then show "advancing (many p mn)" by (rule advancing_many)
next
  assume "advancing p"
  then show "advancing (option_p p)" by (rule advancing_option)
next
  assume "advancing p \<and> advancing separator \<and> sep p separator mn = Inr q"
  then show "advancing q" using advancing_sep[of p separator mn q] by simp
next
  assume "\<forall>p\<in>set ps. advancing p"
  then show "advancing (seq ps)" by (rule advancing_seq)
next
  assume "\<forall>p\<in>set ps. advancing p"
  then show "advancing (alt ps)" by (rule advancing_alt)
next
  assume "advancing (lz ())"
  then show "advancing (lazy lz)" by (rule advancing_lazy)
qed

theorem success_never_rewinds_witness:
  "advancing (str [0x61] :: state_base parser) \<and> advancing (many (str [0x61]) 0 :: state_base parser)
   \<and> handler (many (str [0x61]) 0) [0x61, 0x61, 0x62] 0 \<lparr>trace = None\<rparr>
       = Some (Success (JArr [JStr [0x61], JStr [0x61]]) 2, [])"
proof -
  have a: "advancing (str [0x61] :: state_base parser)"
    using success_never_rewinds[of "[0x61]"] by blast
  have b: "advancing (many (str [0x61]) 0 :: state_base parser)"
    using a success_never_rewinds[where p = "str [0x61]" and mn = 0] by blast
  have c: "handler (many (str [0x61]) 0) [0x61, 0x61, 0x62] 0 \<lparr>trace = None\<rparr>
       = Some (Success (JArr [JStr [0x61], JStr [0x61]]) 2, [])"
    by code_simp
  from a b c show ?thesis by blast
qed

subsection \<open>The minimum of sep\<close>

lemma handler_seq2:
  "handler (seq [p, q]) inp index st = Some (Success v i, log) \<Longrightarrow>
     \<exists>v0 i0 l0 v1 l1. handler p inp index st = Some (Success v0 i0, l0)
       \<and> handler q inp i0 st = Some (Success v1 i, l1) \<and> v = JArr [v0, v1]"
  by (auto simp add: seq_def handler_unnamed success_def split: option.splits result.splits)

lemma handler_many_Success:
  "handler (many p mn) inp index st = Some (Success v i, log) \<Longrightarrow>
     \<exists>acc. v = JArr acc \<and> mn \<le> int (length acc)"
  by (auto simp add: many_def handler_unnamed success_def failure_def split: option.splits if_splits)

text \<open>
  C10. \<open>sep\<close> checks its minimum when it is built: with \<open>min < 1\<close> it throws the error
  and builds no parser, before any input is seen. So every parser \<open>sep\<close> returns has
  \<open>min \<ge> 1\<close>, and it succeeds only where the element parser \<open>p\<close> succeeds at the start
  index; its value is the array of at least \<open>min\<close> element values, the first of them
  the value of that first \<open>p\<close>.
\<close>

theorem sep_checks_min:
  "(mn < 1 \<longrightarrow> sep p separator mn
       = Inl (Error (CHR 0x22 # ''min'' @ CHR 0x22 # '' must be a value greater than or equal to 1.'')))
   \<and> (sep p separator mn = Inr q \<longrightarrow> 1 \<le> mn
       \<and> (\<forall>inp index st v i log. handler q inp index st = Some (Success v i, log) \<longrightarrow>
            (\<exists>v0 i0 l0 vs. handler p inp index st = Some (Success v0 i0, l0)
               \<and> v = JArr (v0 # vs) \<and> mn \<le> int (length (v0 # vs)))))"
proof (intro conjI impI allI)
  assume "mn < 1"
  then show "sep p separator mn
       = Inl (Error (CHR 0x22 # ''min'' @ CHR 0x22 # '' must be a value greater than or equal to 1.''))"
    by (simp add: sep_def)
next
  assume "sep p separator mn = Inr q"
  then show "1 \<le> mn" by (simp add: sep_def split: if_splits)
next
  fix inp index st v i log
  assume s: "sep p separator mn = Inr q" and h: "handler q inp index st = Some (Success v i, log)"
  from s have q: "q = map_p (seq [p, many (select (seq [separator, p]) 1) (mn - 1)]) sep_join"
    by (simp add: sep_def split: if_splits)
  from h obtain w where w: "handler (seq [p, many (select (seq [separator, p]) 1) (mn - 1)]) inp index st
      = Some (Success w i, log)" and v: "v = sep_join w"
    unfolding q by (auto simp add: map_p_def handler_unnamed success_def split: option.splits result.splits)
  from handler_seq2[OF w] obtain v0 i0 l0 v1 l1 where
    p: "handler p inp index st = Some (Success v0 i0, l0)"
    and m: "handler (many (select (seq [separator, p]) 1) (mn - 1)) inp i0 st = Some (Success v1 i, l1)"
    and w': "w = JArr [v0, v1]" by blast
  from handler_many_Success[OF m] obtain vs where "v1 = JArr vs" "mn - 1 \<le> int (length vs)" by blast
  with p v w' show "\<exists>v0 i0 l0 vs. handler p inp index st = Some (Success v0 i0, l0)
               \<and> v = JArr (v0 # vs) \<and> mn \<le> int (length (v0 # vs))"
    by auto
qed

theorem sep_checks_min_witness:
  "sep (str [0x61]) (str [0x2C]) 0
       = (Inl (Error (CHR 0x22 # ''min'' @ CHR 0x22 # '' must be a value greater than or equal to 1.''))
           :: error + state_base parser)
   \<and> (\<exists>q. sep (str [0x61]) (str [0x2C]) 2 = Inr q
        \<and> handler q [0x61, 0x2C, 0x61, 0x62] 0 \<lparr>trace = None\<rparr>
            = Some (Success (JArr [JStr [0x61], JStr [0x61]]) 3, [])
        \<and> handler q [0x61, 0x62] 0 \<lparr>trace = None\<rparr> = Some (Failure, []))"
proof -
  have a: "sep (str [0x61]) (str [0x2C]) 0
       = (Inl (Error (CHR 0x22 # ''min'' @ CHR 0x22 # '' must be a value greater than or equal to 1.''))
           :: error + state_base parser)"
    using sep_checks_min[where mn = 0 and p = "str [0x61] :: state_base parser"
        and separator = "str [0x2C]" and q = "str []"]
    by simp
  obtain q :: "state_base parser" where q: "sep (str [0x61]) (str [0x2C]) 2 = Inr q"
    by (simp add: sep_def)
  then have q': "q = map_p (seq [str [0x61], many (select (seq [str [0x2C], str [0x61]]) 1) (2 - 1)]) sep_join"
    by (simp add: sep_def)
  have b: "handler q [0x61, 0x2C, 0x61, 0x62] 0 \<lparr>trace = None\<rparr>
            = Some (Success (JArr [JStr [0x61], JStr [0x61]]) 3, [])"
    unfolding q' by code_simp
  have c: "handler q [0x61, 0x62] 0 \<lparr>trace = None\<rparr> = Some (Failure, [])"
    unfolding q' by code_simp
  from a q b c show ?thesis by blast
qed


subsection \<open>The trace flag\<close>

lemma outcome_body: "outcome p inp index st = map_option fst (body p inp index st)"
  by (auto simp add: outcome_def handler_def split: option.splits result.splits prod.splits)

lemma outcome_unnamed: "outcome (Parser h None) inp index st = map_option fst (h inp index st)"
  by (simp add: outcome_body Parser_def)

lemma outcome_cases:
  assumes "outcome p inp i st1 = outcome p inp i st2"
  obtains (none) "handler p inp i st1 = None" "handler p inp i st2 = None"
  | (some) r l1 l2 where "handler p inp i st1 = Some (r, l1)" "handler p inp i st2 = Some (r, l2)"
  using assms unfolding outcome_def
  by (cases "handler p inp i st1"; cases "handler p inp i st2") auto

lemma many_loop_sim:
  assumes "many_loop p inp st1 i acc l1 = Some y"
    and "\<forall>k. outcome p inp k st1 = outcome p inp k st2"
  shows "\<exists>l. many_loop p inp st2 i acc l2 = Some (fst y, fst (snd y), l)"
proof -
  have "(\<forall>k. outcome p inp k st1 = outcome p inp k st2) \<longrightarrow>
      (\<forall>l2. \<exists>l. many_loop p inp st2 i acc l2 = Some (fst y, fst (snd y), l))"
  proof (rule many_loop.raw_induct[where P = "\<lambda>p inp st1 i acc l1 y.
      (\<forall>k. outcome p inp k st1 = outcome p inp k st2) \<longrightarrow>
      (\<forall>l2. \<exists>l. many_loop p inp st2 i acc l2 = Some (fst y, fst (snd y), l))", OF _ assms(1)])
    fix f and p :: "'a state_base_scheme parser" and inp st1 i acc l1 y
    assume IH: "\<And>p inp st1 i acc l1 y. f p inp st1 i acc l1 = Some y \<Longrightarrow>
        (\<forall>k. outcome p inp k st1 = outcome p inp k st2) \<longrightarrow>
        (\<forall>l2. \<exists>l. many_loop p inp st2 i acc l2 = Some (fst y, fst (snd y), l))"
      and body: "(if i < length inp
        then case handler p inp i st1 of None \<Rightarrow> None
             | Some (Success v j, l) \<Rightarrow> f p inp st1 j (acc @ [v]) (l1 @ l)
             | Some (Failure, l) \<Rightarrow> Some (i, acc, l1 @ l)
        else Some (i, acc, l1)) = Some y"
    show "(\<forall>k. outcome p inp k st1 = outcome p inp k st2) \<longrightarrow>
        (\<forall>l2. \<exists>l. many_loop p inp st2 i acc l2 = Some (fst y, fst (snd y), l))"
    proof (intro impI allI)
      fix l2
      assume same: "\<forall>k. outcome p inp k st1 = outcome p inp k st2"
      show "\<exists>l. many_loop p inp st2 i acc l2 = Some (fst y, fst (snd y), l)"
      proof (cases "i < length inp")
        case False
        with body show ?thesis by (subst many_loop.simps) auto
      next
        case True
        from same have "outcome p inp i st1 = outcome p inp i st2" by blast
        then show ?thesis
        proof (cases rule: outcome_cases)
          case none
          with body True show ?thesis by simp
        next
          case (some r m1 m2)
          show ?thesis
          proof (cases r)
            case Failure
            with some body True show ?thesis by (subst many_loop.simps) auto
          next
            case (Success v j)
            with some body True have "f p inp st1 j (acc @ [v]) (l1 @ m1) = Some y" by simp
            from IH[OF this] same
            obtain l where "many_loop p inp st2 j (acc @ [v]) (l2 @ m2) = Some (fst y, fst (snd y), l)"
              by blast
            with some Success True show ?thesis by (subst many_loop.simps) simp
          qed
        qed
      qed
    qed
  qed
  with assms(2) show ?thesis by blast
qed

lemma many_loop_same:
  assumes "\<forall>k. outcome p inp k st1 = outcome p inp k st2"
  shows "map_option (\<lambda>y. (fst y, fst (snd y))) (many_loop p inp st1 i acc l1)
       = map_option (\<lambda>y. (fst y, fst (snd y))) (many_loop p inp st2 i acc l2)"
proof (cases "many_loop p inp st1 i acc l1")
  case None
  have "many_loop p inp st2 i acc l2 = None"
  proof (rule ccontr)
    assume "many_loop p inp st2 i acc l2 \<noteq> None"
    then obtain y where y: "many_loop p inp st2 i acc l2 = Some y" by blast
    from assms have "\<forall>k. outcome p inp k st2 = outcome p inp k st1" by simp
    from many_loop_sim[OF y this, of l1] None show False by simp
  qed
  with None show ?thesis by simp
next
  case (Some y)
  from many_loop_sim[OF Some assms, of l2] Some show ?thesis by auto
qed

lemma seq_loop_same:
  assumes "\<forall>p\<in>set ps. \<forall>k. outcome p inp k st1 = outcome p inp k st2"
  shows "map_option fst (seq_loop ps inp st1 i acc l1) = map_option fst (seq_loop ps inp st2 i acc l2)"
  using assms
proof (induction ps arbitrary: i acc l1 l2)
  case Nil
  show ?case by simp
next
  case (Cons p ps)
  from Cons.prems have "outcome p inp i st1 = outcome p inp i st2" by simp
  then show ?case
  proof (cases rule: outcome_cases)
    case none
    then show ?thesis by simp
  next
    case (some r m1 m2)
    show ?thesis
    proof (cases r)
      case Failure
      with some show ?thesis by simp
    next
      case (Success v j)
      from Cons.prems have "\<forall>p\<in>set ps. \<forall>k. outcome p inp k st1 = outcome p inp k st2" by simp
      from Cons.IH[OF this] some Success show ?thesis by simp
    qed
  qed
qed

lemma alt_loop_same:
  assumes "\<forall>p\<in>set ps. \<forall>k. outcome p inp k st1 = outcome p inp k st2"
  shows "map_option fst (alt_loop ps inp st1 i l1) = map_option fst (alt_loop ps inp st2 i l2)"
  using assms
proof (induction ps arbitrary: l1 l2)
  case Nil
  show ?case by simp
next
  case (Cons p ps)
  from Cons.prems have "outcome p inp i st1 = outcome p inp i st2" by simp
  then show ?case
  proof (cases rule: outcome_cases)
    case none
    then show ?thesis by simp
  next
    case (some r m1 m2)
    show ?thesis
    proof (cases r)
      case (Success v j)
      with some show ?thesis by simp
    next
      case Failure
      from Cons.prems have "\<forall>p\<in>set ps. \<forall>k. outcome p inp k st1 = outcome p inp k st2" by simp
      from Cons.IH[OF this] some Failure show ?thesis by simp
    qed
  qed
qed

lemma engine_outcome:
  assumes "engine p"
  shows "\<forall>inp index. outcome p inp index st1 = outcome p inp index st2"
  using assms
proof (induction rule: engine.induct)
  case (e_str s)
  show ?case by (simp add: str_def outcome_unnamed)
next
  case (e_regexp re)
  show ?case by (simp add: regexp_def outcome_unnamed)
next
  case e_char
  show ?case by (simp add: char_def outcome_unnamed)
next
  case e_lineBegin
  show ?case by (simp add: outcome_def handler_lineBegin)
next
  case e_lineEnd
  show ?case by (simp add: outcome_def handler_lineEnd)
next
  case (e_succeeded v)
  show ?case by (simp add: succeeded_def outcome_unnamed)
next
  case (e_notMatch p)
  show ?case
  proof (intro allI)
    fix inp index
    from e_notMatch.IH have "outcome p inp index st1 = outcome p inp index st2" by blast
    then show "outcome (notMatch p) inp index st1 = outcome (notMatch p) inp index st2"
      by (cases rule: outcome_cases) (simp_all add: notMatch_def outcome_unnamed)
  qed
next
  case (e_map p fn)
  show ?case
  proof (intro allI)
    fix inp index
    from e_map.IH have "outcome p inp index st1 = outcome p inp index st2" by blast
    then show "outcome (map_p p fn) inp index st1 = outcome (map_p p fn) inp index st2"
      by (cases rule: outcome_cases) (simp_all add: map_p_def outcome_unnamed split: result.splits)
  qed
next
  case (e_text p)
  show ?case
  proof (intro allI)
    fix inp index
    from e_text.IH have "outcome p inp index st1 = outcome p inp index st2" by blast
    then show "outcome (text_p p) inp index st1 = outcome (text_p p) inp index st2"
      by (cases rule: outcome_cases) (simp_all add: text_p_def outcome_unnamed split: result.splits)
  qed
next
  case (e_many p mn)
  show ?case
  proof (intro allI)
    fix inp index
    from e_many.IH have "\<forall>k. outcome p inp k st1 = outcome p inp k st2" by blast
    from many_loop_same[OF this, of index "[]" "[]" "[]"]
    show "outcome (many p mn) inp index st1 = outcome (many p mn) inp index st2"
      by (cases "many_loop p inp st1 index [] []"; cases "many_loop p inp st2 index [] []")
        (auto simp add: many_def outcome_unnamed)
  qed
next
  case (e_seq ps)
  then have "\<And>inp. \<forall>p\<in>set ps. \<forall>k. outcome p inp k st1 = outcome p inp k st2" by blast
  then show ?case by (simp add: seq_def outcome_unnamed seq_loop_same)
next
  case (e_alt ps)
  then have "\<And>inp. \<forall>p\<in>set ps. \<forall>k. outcome p inp k st1 = outcome p inp k st2" by blast
  then show ?case by (simp add: alt_def outcome_unnamed alt_loop_same)
next
  case (e_lazy fn)
  then show ?case by (simp add: lazy_def handler_unnamed outcome_def)
next
  case (e_named p n)
  then show ?case by (simp add: outcome_body)
qed


lemma engine_select: "engine p \<Longrightarrow> engine (select p key)"
  unfolding select_def by (rule e_map)

lemma engine_option: "engine p \<Longrightarrow> engine (option_p p)"
  unfolding option_p_def by (rule e_alt) (simp add: e_succeeded)

lemma engine_sep:
  assumes "engine p" "engine separator" "sep p separator mn = Inr q"
  shows "engine q"
proof -
  from assms(3) have q: "q = map_p (seq [p, many (select (seq [separator, p]) 1) (mn - 1)]) sep_join"
    by (simp add: sep_def split: if_splits)
  have "engine (seq [separator, p])" using assms by (intro e_seq) simp
  then have "engine (many (select (seq [separator, p]) 1) (mn - 1))"
    by (intro e_many engine_select)
  with assms(1) show ?thesis unfolding q by (intro e_map e_seq) simp
qed

lemma engine_newline: "engine cr" "engine lf" "engine crlf" "engine newline"
proof -
  show "engine cr" "engine lf" "engine crlf"
    unfolding cr_def lf_def crlf_def by (rule e_str)+
  then show "engine newline"
    unfolding newline_def by (intro e_alt) simp
qed

text \<open>
  C6. For every parser built from the engine's primitives and combinators, every
  input, every index and every state, the call with \<open>trace = true\<close> and the call with
  \<open>trace = false\<close> (the rest of the state equal) have the same outcome: both do not
  return, or both return the same result, with the same value and index. Only the
  console lines differ.
\<close>

theorem trace_keeps_outcome:
  assumes "engine p"
  shows "outcome p inp index (st\<lparr>trace := Some True\<rparr>) = outcome p inp index (st\<lparr>trace := Some False\<rparr>)"
  using engine_outcome[OF assms] by blast

theorem trace_keeps_outcome_witness:
  "engine ((many ((str [0x61])\<lparr>name := Some [0x41]\<rparr>) 0)\<lparr>name := Some [0x42]\<rparr> :: state_base parser)
   \<and> handler ((many ((str [0x61])\<lparr>name := Some [0x41]\<rparr>) 0)\<lparr>name := Some [0x42]\<rparr>) [0x61, 0x62] 0 \<lparr>trace = Some True\<rparr>
       = Some (Success (JArr [JStr [0x61]]) 1,
           [Enter 0 [0x42], Enter 0 [0x41], Match 0 1 [0x41], Enter 1 [0x41], Fail 1 [0x41], Match 0 1 [0x42]])
   \<and> handler ((many ((str [0x61])\<lparr>name := Some [0x41]\<rparr>) 0)\<lparr>name := Some [0x42]\<rparr>) [0x61, 0x62] 0 \<lparr>trace = Some False\<rparr>
       = Some (Success (JArr [JStr [0x61]]) 1, [])
   \<and> outcome ((many ((str [0x61])\<lparr>name := Some [0x41]\<rparr>) 0)\<lparr>name := Some [0x42]\<rparr>) [0x61, 0x62] 0 \<lparr>trace = Some True\<rparr>
       = outcome ((many ((str [0x61])\<lparr>name := Some [0x41]\<rparr>) 0)\<lparr>name := Some [0x42]\<rparr>) [0x61, 0x62] 0 \<lparr>trace = Some False\<rparr>"
proof -
  let ?p = "(many ((str [0x61])\<lparr>name := Some [0x41]\<rparr>) 0)\<lparr>name := Some [0x42]\<rparr> :: state_base parser"
  have e: "engine ?p" by (intro e_named e_many e_str)
  have a: "handler ?p [0x61, 0x62] 0 \<lparr>trace = Some True\<rparr>
       = Some (Success (JArr [JStr [0x61]]) 1,
           [Enter 0 [0x42], Enter 0 [0x41], Match 0 1 [0x41], Enter 1 [0x41], Fail 1 [0x41], Match 0 1 [0x42]])"
    by code_simp
  have b: "handler ?p [0x61, 0x62] 0 \<lparr>trace = Some False\<rparr> = Some (Success (JArr [JStr [0x61]]) 1, [])"
    by code_simp
  from trace_keeps_outcome[OF e, of "[0x61, 0x62]" 0 "\<lparr>trace = None\<rparr>"]
  have c: "outcome ?p [0x61, 0x62] 0 \<lparr>trace = Some True\<rparr> = outcome ?p [0x61, 0x62] 0 \<lparr>trace = Some False\<rparr>"
    by simp
  from e a b c show ?thesis by blast
qed

section \<open>Properties of the grammar rules\<close>

subsection \<open>The hashtag rule\<close>

lemma hashtagMatcher_Ok:
  assumes "hashtagMatcher isAllowedAsBackChar LfMatcher c = (Ok n, c')"
  shows "\<exists>v. n = HASHTAG v \<and> v \<noteq> [] \<and> \<not> digits_only v
           \<and> hashtag_value LfMatcher (c\<lparr>pos := pos c + 1\<rparr>) [] = (c', v)"
  using assms
  by (auto simp add: hashtagMatcher_def ctx_fail_def ctx_ok_def split: if_splits prod.splits)

lemma not_digits_only: "v \<noteq> [] \<Longrightarrow> \<not> digits_only v \<Longrightarrow> \<exists>ch\<in>set v. \<not> (0x30 \<le> ch \<and> ch \<le> 0x39)"
  by (auto simp add: digits_only_def list_all_iff)

text \<open>
  C9. \<open>hashtagMatcher\<close> never produces a degenerate hashtag. When it succeeds, the
  node is a hashtag whose value is not empty and has a code unit that is not one of
  the ASCII digits 0-9. When the value the loop scans is empty or is all digits, it
  fails.
\<close>

theorem hashtag_not_degenerate:
  "(hashtagMatcher isAllowedAsBackChar LfMatcher c = (Ok n, c') \<longrightarrow>
      (\<exists>v. n = HASHTAG v \<and> v \<noteq> [] \<and> (\<exists>ch\<in>set v. \<not> (0x30 \<le> ch \<and> ch \<le> 0x39))))
   \<and> (snd (hashtag_value LfMatcher (c\<lparr>pos := pos c + 1\<rparr>) []) = []
        \<or> (\<forall>ch\<in>set (snd (hashtag_value LfMatcher (c\<lparr>pos := pos c + 1\<rparr>) [])). 0x30 \<le> ch \<and> ch \<le> 0x39)
      \<longrightarrow> fst (hashtagMatcher isAllowedAsBackChar LfMatcher c) = NotOk)"
proof (intro conjI impI)
  assume "hashtagMatcher isAllowedAsBackChar LfMatcher c = (Ok n, c')"
  from hashtagMatcher_Ok[OF this] obtain v where "n = HASHTAG v" "v \<noteq> []" "\<not> digits_only v" by blast
  with not_digits_only show "\<exists>v. n = HASHTAG v \<and> v \<noteq> [] \<and> (\<exists>ch\<in>set v. \<not> (0x30 \<le> ch \<and> ch \<le> 0x39))"
    by blast
next
  assume a: "snd (hashtag_value LfMatcher (c\<lparr>pos := pos c + 1\<rparr>) []) = []
        \<or> (\<forall>ch\<in>set (snd (hashtag_value LfMatcher (c\<lparr>pos := pos c + 1\<rparr>) [])). 0x30 \<le> ch \<and> ch \<le> 0x39)"
  obtain c1 v where hv: "hashtag_value LfMatcher (c\<lparr>pos := pos c + 1\<rparr>) [] = (c1, v)"
    by (cases "hashtag_value LfMatcher (c\<lparr>pos := pos c + 1\<rparr>) []")
  with a have "length v = 0 \<or> digits_only v"
    by (auto simp add: digits_only_def list_all_iff)
  with hv show "fst (hashtagMatcher isAllowedAsBackChar LfMatcher c) = NotOk"
    by (simp add: hashtagMatcher_def ctx_fail_def)
qed

theorem hashtag_not_degenerate_witness:
  "hashtagMatcher (\<lambda>c. True) (ctx_str [0x0A]) \<lparr>input = [0x23, 0x61, 0x31, 0x20, 0x62], pos = 0\<rparr>
     = (Ok (HASHTAG [0x61, 0x31]), \<lparr>input = [0x23, 0x61, 0x31, 0x20, 0x62], pos = 3\<rparr>)
   \<and> hashtag_value (ctx_str [0x0A]) \<lparr>input = [0x23, 0x31, 0x32], pos = 1\<rparr> []
     = (\<lparr>input = [0x23, 0x31, 0x32], pos = 3\<rparr>, [0x31, 0x32])
   \<and> fst (hashtagMatcher (\<lambda>c. True) (ctx_str [0x0A]) \<lparr>input = [0x23, 0x31, 0x32], pos = 0\<rparr>) = NotOk
   \<and> hashtag_value (ctx_str [0x0A]) \<lparr>input = [0x23, 0x20], pos = 1\<rparr> []
     = (\<lparr>input = [0x23, 0x20], pos = 1\<rparr>, [])
   \<and> fst (hashtagMatcher (\<lambda>c. True) (ctx_str [0x0A]) \<lparr>input = [0x23, 0x20], pos = 0\<rparr>) = NotOk"
proof -
  let ?lf = "ctx_str [0x0A] :: (matcher_context, jsstring) rule"
  have a: "hashtagMatcher (\<lambda>c. True) ?lf \<lparr>input = [0x23, 0x61, 0x31, 0x20, 0x62], pos = 0\<rparr>
     = (Ok (HASHTAG [0x61, 0x31]), \<lparr>input = [0x23, 0x61, 0x31, 0x20, 0x62], pos = 3\<rparr>)"
    by code_simp
  have v1: "hashtag_value ?lf \<lparr>input = [0x23, 0x31, 0x32], pos = 1\<rparr> []
     = (\<lparr>input = [0x23, 0x31, 0x32], pos = 3\<rparr>, [0x31, 0x32])"
    by code_simp
  have v2: "hashtag_value ?lf \<lparr>input = [0x23, 0x20], pos = 1\<rparr> []
     = (\<lparr>input = [0x23, 0x20], pos = 1\<rparr>, [])"
    by code_simp
  have b: "fst (hashtagMatcher (\<lambda>c. True) ?lf \<lparr>input = [0x23, 0x31, 0x32], pos = 0\<rparr>) = NotOk"
    using hashtag_not_degenerate[where c = "\<lparr>input = [0x23, 0x31, 0x32], pos = 0\<rparr>"
        and LfMatcher = ?lf and isAllowedAsBackChar = "\<lambda>c. True" and n = "HASHTAG []"
        and c' = "\<lparr>input = [], pos = 0\<rparr>"] v1
    by simp
  have c: "fst (hashtagMatcher (\<lambda>c. True) ?lf \<lparr>input = [0x23, 0x20], pos = 0\<rparr>) = NotOk"
    using hashtag_not_degenerate[where c = "\<lparr>input = [0x23, 0x20], pos = 0\<rparr>"
        and LfMatcher = ?lf and isAllowedAsBackChar = "\<lambda>c. True" and n = "HASHTAG []"
        and c' = "\<lparr>input = [], pos = 0\<rparr>"] v2
    by simp
  from a v1 b v2 c show ?thesis by blast
qed


subsection \<open>The link rule\<close>

lemma ctx_char_inLink: "inLink (snd (ctx_char code c)) = inLink c"
  by (simp add: ctx_char_def)

lemma ctx_str_inLink: "inLink (snd (ctx_str s c)) = inLink c"
  by (simp add: ctx_str_def)

lemma ctx_char_ok: "ok (fst (ctx_char code c)) = matchChar code c"
  by (simp add: ctx_char_def)

lemma choice_inLink:
  assumes "\<forall>p\<in>set ps. keeps_inLink p"
  shows "inLink (snd (choice ps c)) = inLink c"
  using assms
proof (induction ps arbitrary: c)
  case Nil
  show ?case by simp
next
  case (Cons p ps)
  from Cons.prems have k: "inLink (snd (p c)) = inLink c" by (simp add: keeps_inLink_def)
  obtain m c1 where pc: "p c = (m, c1)" by (cases "p c")
  show ?case
  proof (cases m)
    case (Ok r)
    with pc k show ?thesis by simp
  next
    case NotOk
    from Cons.prems have "\<forall>p\<in>set ps. keeps_inLink p" by simp
    from Cons.IH[OF this, of "c1\<lparr>pos := pos c\<rparr>"] pc k NotOk show ?thesis by simp
  qed
qed

lemma linkParser_no_bracket:
  assumes "\<not> matchChar openBracket (snd (ctx_char question c))"
  shows "linkParser inlineParser urlAltParser urlParser pushNode c
           = Some (NotOk, snd (ctx_char question c))"
proof -
  obtain m1 c1 where q: "ctx_char question c = (m1, c1)" by (cases "ctx_char question c")
  with assms have "ctx_char openBracket c1 = (NotOk, c1)" by (simp add: ctx_char_def)
  with q show ?thesis by (simp add: linkParser_def syntax_p_def ctx_fail_def)
qed

lemma linkParser_bracket:
  assumes "matchChar openBracket (snd (ctx_char question c))"
    and "keeps_inLink urlAltParser" "keeps_inLink urlParser"
    and "linkParser inlineParser urlAltParser urlParser pushNode c = Some (r, c')"
  shows "\<not> inLink c'"
proof -
  obtain m1 c1 where q: "ctx_char question c = (m1, c1)" by (cases "ctx_char question c")
  obtain m2 c2 where b: "ctx_char openBracket c1 = (m2, c2)" by (cases "ctx_char openBracket c1")
  from assms(1) q b have ok2: "ok m2" by (auto simp add: ctx_char_def split: if_splits)
  from assms(4) q b ok2 obtain c3 label where
    l: "link_label inlineParser pushNode (c2\<lparr>inLink := True\<rparr>) [] = Some (c3, label)"
    by (auto simp add: linkParser_def syntax_p_def split: option.splits)
  define c4 where "c4 = c3\<lparr>inLink := False\<rparr>"
  have f4: "\<not> inLink c4" by (simp add: c4_def)
  obtain m5 c5 where s: "ctx_str [0x5D, 0x28] c4 = (m5, c5)" by (cases "ctx_str [0x5D, 0x28] c4")
  have f5: "\<not> inLink c5" using ctx_str_inLink[of "[0x5D, 0x28]" c4] s f4 by simp
  obtain m6 c6 where u: "choice [urlAltParser, urlParser] c5 = (m6, c6)"
    by (cases "choice [urlAltParser, urlParser] c5")
  have f6: "\<not> inLink c6"
    using choice_inLink[of "[urlAltParser, urlParser]" c5] assms(2,3) u f5 by simp
  obtain m7 c7 where p: "ctx_char closeParen c6 = (m7, c7)" by (cases "ctx_char closeParen c6")
  have f7: "\<not> inLink c7" using ctx_char_inLink[of closeParen c6] p f6 by simp
  from assms(4) q b ok2 l s u p have "c' = c4 \<or> c' = c5 \<or> c' = c6 \<or> c' = c7"
    by (auto simp add: linkParser_def syntax_p_def Let_def c4_def ctx_fail_def ctx_ok_def
        split: if_splits matched.splits)
  with f4 f5 f6 f7 show ?thesis by blast
qed

text \<open>
  C2, as the code has it. The link rule does not save the inside-link flag: it sets
  it to true before the label and to false after it. So, with \<open>url\<close> rules that leave
  the flag alone: when the rule returns after its opening bracket matched, on the
  success path and on every failure path, the flag is false; when the bracket did not
  match, the rule fails with the flag unchanged. A rule entered with the flag false
  therefore returns with the flag equal to its prior value.
\<close>

theorem link_flag_cleared:
  assumes "keeps_inLink urlAltParser" "keeps_inLink urlParser"
    and "linkParser inlineParser urlAltParser urlParser pushNode c = Some (r, c')"
  shows "(matchChar openBracket (snd (ctx_char question c)) \<longrightarrow> \<not> inLink c')
       \<and> (\<not> matchChar openBracket (snd (ctx_char question c)) \<longrightarrow> r = NotOk \<and> inLink c' = inLink c)
       \<and> (\<not> inLink c \<longrightarrow> inLink c' = inLink c)"
proof (cases "matchChar openBracket (snd (ctx_char question c))")
  case True
  from linkParser_bracket[OF True assms] have "\<not> inLink c'" .
  with True show ?thesis by simp
next
  case False
  from linkParser_no_bracket[OF False] assms(3)
  have "r = NotOk" "c' = snd (ctx_char question c)" by simp_all
  with False ctx_char_inLink[of question c] show ?thesis by simp
qed

theorem link_flag_cleared_witness:
  "linkParser
       (\<lambda>c. if eof c then (NotOk, c) else (Ok (TEXT (charAt (input c) (pos c))), c\<lparr>pos := pos c + 1\<rparr>))
       (\<lambda>c. (NotOk, c))
       (\<lambda>c. if matchChar 0x75 c then (Ok (URL [0x75]), c\<lparr>pos := pos c + 1\<rparr>) else (NotOk, c))
       (\<lambda>n ns. ns @ [n])
       \<lparr>input = [0x5B, 0x61, 0x5D, 0x28, 0x75, 0x29], pos = 0, inLink = False\<rparr>
     = Some (Ok (LINK False [0x75] [TEXT [0x61]]),
         \<lparr>input = [0x5B, 0x61, 0x5D, 0x28, 0x75, 0x29], pos = 6, inLink = False\<rparr>)
   \<and> matchChar openBracket
         (snd (ctx_char question \<lparr>input = [0x5B, 0x61, 0x5D, 0x28, 0x75, 0x29], pos = 0, inLink = False\<rparr>))
   \<and> inLink \<lparr>input = [0x5B, 0x61, 0x5D, 0x28, 0x75, 0x29], pos = 6, inLink = False\<rparr>
       = inLink \<lparr>input = [0x5B, 0x61, 0x5D, 0x28, 0x75, 0x29], pos = 0, inLink = False\<rparr>"
proof -
  let ?inl = "\<lambda>c :: ctx. if eof c then (NotOk, c)
      else (Ok (TEXT (charAt (input c) (pos c))), c\<lparr>pos := pos c + 1\<rparr>)"
  let ?alt = "\<lambda>c :: ctx. (NotOk :: node matched, c)"
  let ?url = "\<lambda>c :: ctx. if matchChar 0x75 c then (Ok (URL [0x75]), c\<lparr>pos := pos c + 1\<rparr>)
      else (NotOk, c)"
  let ?c = "\<lparr>input = [0x5B, 0x61, 0x5D, 0x28, 0x75, 0x29], pos = 0, inLink = False\<rparr>"
  let ?c' = "\<lparr>input = [0x5B, 0x61, 0x5D, 0x28, 0x75, 0x29], pos = 6, inLink = False\<rparr>"
  have k1: "keeps_inLink ?alt" by (simp add: keeps_inLink_def)
  have k2: "keeps_inLink ?url" by (simp add: keeps_inLink_def)
  have run: "linkParser ?inl ?alt ?url (\<lambda>n ns. ns @ [n]) ?c = Some (Ok (LINK False [0x75] [TEXT [0x61]]), ?c')"
    by code_simp
  have br: "matchChar openBracket (snd (ctx_char question ?c))"
    by code_simp
  from link_flag_cleared[OF k1 k2 run] have "\<not> inLink ?c \<longrightarrow> inLink ?c' = inLink ?c" by blast
  then have "inLink ?c' = inLink ?c" by simp
  with run br show ?thesis by blast
qed

text \<open>
  C2 as stated fails: a link rule entered with the flag true returns with the flag
  false, on the success path (the input \<open>[a](u)\<close>) and on a failure path (the input
  \<open>[]\<close>, whose label is empty).
\<close>

theorem link_flag_not_restored:
  "linkParser
       (\<lambda>c. if eof c then (NotOk, c) else (Ok (TEXT (charAt (input c) (pos c))), c\<lparr>pos := pos c + 1\<rparr>))
       (\<lambda>c. (NotOk, c))
       (\<lambda>c. if matchChar 0x75 c then (Ok (URL [0x75]), c\<lparr>pos := pos c + 1\<rparr>) else (NotOk, c))
       (\<lambda>n ns. ns @ [n])
       \<lparr>input = [0x5B, 0x61, 0x5D, 0x28, 0x75, 0x29], pos = 0, inLink = True\<rparr>
     = Some (Ok (LINK False [0x75] [TEXT [0x61]]),
         \<lparr>input = [0x5B, 0x61, 0x5D, 0x28, 0x75, 0x29], pos = 6, inLink = False\<rparr>)
   \<and> linkParser
       (\<lambda>c. if eof c then (NotOk, c) else (Ok (TEXT (charAt (input c) (pos c))), c\<lparr>pos := pos c + 1\<rparr>))
       (\<lambda>c. (NotOk, c))
       (\<lambda>c. if matchChar 0x75 c then (Ok (URL [0x75]), c\<lparr>pos := pos c + 1\<rparr>) else (NotOk, c))
       (\<lambda>n ns. ns @ [n])
       \<lparr>input = [0x5B, 0x5D], pos = 0, inLink = True\<rparr>
     = Some (NotOk, \<lparr>input = [0x5B, 0x5D], pos = 1, inLink = False\<rparr>)"
  by code_simp

end
